theory Spec2Isabelle
  imports Complex_Main
begin

section \<open>Text and the dataset file\<close>

text \<open>
  A Python \<open>str\<close> is the list of its code points. \<open>str\<close> gives the text of an ASCII
  literal.
\<close>

type_synonym ustr = "nat list"

definition str :: "string \<Rightarrow> ustr" where
  "str s = map of_char s"

text \<open>
  The whitespace test that \<open>str.strip()\<close> uses: the code points U+0009..U+000D,
  U+001C..U+0020, U+0085, U+00A0, U+1680, U+2000..U+200A, U+2028, U+2029, U+202F, U+205F
  and U+3000.
\<close>

definition isspace :: "nat \<Rightarrow> bool" where
  "isspace c \<longleftrightarrow>
     (0x09 \<le> c \<and> c \<le> 0x0D) \<or> (0x1C \<le> c \<and> c \<le> 0x20) \<or> c = 0x85 \<or> c = 0xA0 \<or>
     c = 0x1680 \<or> (0x2000 \<le> c \<and> c \<le> 0x200A) \<or> c = 0x2028 \<or> c = 0x2029 \<or>
     c = 0x202F \<or> c = 0x205F \<or> c = 0x3000"

text \<open>\<open>str.strip()\<close>: drop the leading and the trailing whitespace.\<close>

definition strip :: "ustr \<Rightarrow> ustr" where
  "strip s = rev (dropWhile isspace (rev (dropWhile isspace s)))"

definition LF :: nat where
  "LF = 0x0A"

definition CR :: nat where
  "CR = 0x0D"

text \<open>
  A file opened in text mode with the default \<open>newline=None\<close> translates the line ends
  \<open>\r\n\<close> and \<open>\r\<close> to \<open>\n\<close> as it is read.
\<close>

fun universal_newlines :: "ustr \<Rightarrow> ustr" where
  "universal_newlines [] = []"
| "universal_newlines [c] = [if c = CR then LF else c]"
| "universal_newlines (c # d # cs) =
     (if c = CR \<and> d = LF then LF # universal_newlines cs
      else (if c = CR then LF else c) # universal_newlines (d # cs))"

text \<open>
  Iterating over the file yields its lines, each with its terminating \<open>\n\<close>; the last
  line has none when the text does not end in one.
\<close>

fun split_lines :: "ustr \<Rightarrow> ustr list" where
  "split_lines [] = []"
| "split_lines (c # cs) =
     (if c = LF then [c] # split_lines cs
      else (case split_lines cs of
              [] \<Rightarrow> [[c]]
            | l # ls \<Rightarrow> (c # l) # ls))"

definition file_lines :: "ustr \<Rightarrow> ustr list" where
  "file_lines txt = split_lines (universal_newlines txt)"

text \<open>
  \<open>load_dataset\<close> (lines 23-32). The argument is what opening the file at
  \<open>dataset_path\<close> and decoding it as UTF-8 gives: \<open>None\<close> when \<open>open\<close> or the
  decoding raises (the \<open>except\<close> branch returns the empty list), \<open>Some txt\<close> with the
  decoded code points otherwise. The comprehension keeps the lines whose stripped form is
  non-empty and strips them.
\<close>

definition load_dataset :: "ustr option \<Rightarrow> ustr list" where
  "load_dataset content =
     (case content of
        None \<Rightarrow> []
      | Some txt \<Rightarrow> map strip (filter (\<lambda>line. strip line \<noteq> []) (file_lines txt)))"

text \<open>
  The loader as the specification words it: strip every line, then discard the lines
  that are empty after stripping.
\<close>

definition spec_load :: "ustr list \<Rightarrow> ustr list" where
  "spec_load lines = filter (\<lambda>l. l \<noteq> []) (map strip lines)"

section \<open>Exceptions and sampling\<close>

text \<open>
  The exceptions a work item can meet. \<open>ValueError\<close> is what \<open>get_random_prompt\<close>
  raises and \<open>ZeroDivisionError\<close> what a division by zero raises; \<open>OtherException\<close>
  is any other instance of \<open>Exception\<close> (a connection error, a timeout, a
  serialisation error), named by its message; \<open>SystemExiting\<close> is
  an instance of \<open>BaseException\<close> that is not an \<open>Exception\<close> (task cancellation, a
  keyboard interrupt), which \<open>except Exception\<close> does not catch.
\<close>

datatype exc = ValueError | ZeroDivisionError | OtherException string | SystemExiting string

fun is_Exception :: "exc \<Rightarrow> bool" where
  "is_Exception ValueError = True"
| "is_Exception ZeroDivisionError = True"
| "is_Exception (OtherException m) = True"
| "is_Exception (SystemExiting m) = False"

text \<open>
  \<open>get_random_prompt\<close> (lines 34-40). \<open>random.choice\<close> indexes the pool at a number
  below its length drawn from the generator; \<open>r\<close> is the generator's output, reduced
  to that range.
\<close>

definition get_random_prompt :: "ustr list \<Rightarrow> nat \<Rightarrow> exc + ustr" where
  "get_random_prompt data_pool r =
     (if data_pool = [] then Inl ValueError
      else Inr (data_pool ! (r mod length data_pool)))"

section \<open>The benchmark object\<close>

text \<open>
  The fields of \<open>HttpBenchmark\<close> (lines 11-21). Python's integers are \<open>int\<close>; the
  monotonic clock and the durations are real numbers, so the rounding of the float
  additions is outside the model. \<open>progress_bar\<close> is the counter of the tqdm bar.
\<close>

record HttpBenchmark =
  url :: string
  total_requests :: int
  concurrency :: int
  dataset_path :: string
  success_count :: int
  failure_count :: int
  total_time :: real
  completed_requests :: int
  data_pool :: "ustr list"
  progress_bar :: int

text \<open>
  \<open>__init__\<close>; \<open>content\<close> is what reading the file at \<open>dataset_path\<close> gives.
\<close>

definition HttpBenchmark_init ::
  "string \<Rightarrow> int \<Rightarrow> int \<Rightarrow> string \<Rightarrow> ustr option \<Rightarrow> HttpBenchmark" where
  "HttpBenchmark_init u n c path content =
     \<lparr>url = u, total_requests = n, concurrency = c, dataset_path = path,
      success_count = 0, failure_count = 0, total_time = 0, completed_requests = 0,
      data_pool = load_dataset content, progress_bar = 0\<rparr>"

section \<open>Requests\<close>

datatype json = JString ustr | JBool bool | JInt int | JFloat real

text \<open>The dictionary of lines 49-54, in the order of its keys.\<close>

definition payload :: "ustr \<Rightarrow> (string \<times> json) list" where
  "payload prompt =
     [(''prompt'', JString prompt), (''stream'', JBool False),
      (''temperature'', JFloat (6 / 10)), (''max_tokens'', JInt 9999)]"

text \<open>
  The timeout configuration of an httpx client: the library keeps one limit, in seconds,
  for each of four phases of a request (getting a connection from the pool, connecting,
  writing, reading) and none for the request as a whole. \<open>httpx.Timeout(t)\<close> with one
  number sets the four limits to it.
\<close>

record timeout =
  t_connect :: "real option"
  t_read :: "real option"
  t_write :: "real option"
  t_pool :: "real option"

definition httpx_Timeout :: "real \<Rightarrow> timeout" where
  "httpx_Timeout t = \<lparr>t_connect = Some t, t_read = Some t, t_write = Some t, t_pool = Some t\<rparr>"

text \<open>A call of \<open>client.post\<close>: the URL, the JSON body, and the timeouts of the client.\<close>

record request =
  req_url :: string
  req_json :: "(string \<times> json) list"
  req_timeout :: timeout

text \<open>What \<open>await client.post(...)\<close> does when it resumes: a response with its status
  code, or an exception.\<close>

datatype post_result = Returned int | Raised exc

section \<open>The run as a transition system\<close>

text \<open>
  The actions of a work item that the outside can see, in the order it performs them:
  taking and giving back the semaphore, reading the monotonic clock, the call of
  \<open>random.choice\<close>, the construction of the payload, the call of \<open>client.post\<close>, the
  printed traceback, and the update of the progress bar.
\<close>

datatype action =
    Acquire
  | ReadClock real
  | Sample ustr
  | Build "(string \<times> json) list"
  | Post request
  | Traceback exc
  | Progress
  | Release

text \<open>
  How a work item ended: status 200 with its elapsed time, another status with its
  elapsed time, an exception caught by line 70, or an exception that left the coroutine.
\<close>

datatype outcome =
    Success real
  | Failure_status int real
  | Failure_exception exc
  | Propagated exc

text \<open>
  A task created by line 82 is waiting for the semaphore, or suspended in
  \<open>await client.post\<close> (its local \<open>start_time\<close> is kept), or finished.
\<close>

datatype task = Pending | Awaiting real | Finished outcome

text \<open>
  The state of \<open>run\<close>: the object, the value of the semaphore, the timeouts of the
  client, the tasks by index, the monotonic clock, and the actions performed so far,
  each with the clock value at which it happened and the index of its work item.
\<close>

record run_state = HttpBenchmark +
  semaphore :: nat
  client_timeout :: timeout
  tasks :: "task list"
  clock :: real
  trace :: "(real \<times> nat \<times> action) list"

text \<open>
  Lines 77-82. \<open>asyncio.Semaphore\<close> raises \<open>ValueError\<close> for a negative value;
  the client is built with \<open>httpx.Timeout(60.0)\<close>; \<open>range(total_requests)\<close> is empty
  for a negative total.
\<close>

definition run_init :: "HttpBenchmark \<Rightarrow> real \<Rightarrow> exc + run_state" where
  "run_init b t =
     (if concurrency b < 0 then Inl ValueError
      else Inr \<lparr>url = url b, total_requests = total_requests b, concurrency = concurrency b,
                dataset_path = dataset_path b, success_count = success_count b,
                failure_count = failure_count b, total_time = total_time b,
                completed_requests = completed_requests b, data_pool = data_pool b,
                progress_bar = progress_bar b,
                semaphore = nat (concurrency b), client_timeout = httpx_Timeout 60,
                tasks = replicate (nat (total_requests b)) Pending,
                clock = t, trace = []\<rparr>)"

definition emit :: "nat \<Rightarrow> action list \<Rightarrow> run_state \<Rightarrow> run_state" where
  "emit i acts s = s\<lparr>trace := trace s @ map (\<lambda>a. (clock s, i, a)) acts\<rparr>"

definition advance :: "real \<Rightarrow> run_state \<Rightarrow> run_state" where
  "advance d s = s\<lparr>clock := clock s + d\<rparr>"

text \<open>Entering and leaving \<open>async with semaphore\<close> (line 43).\<close>

definition aenter :: "nat \<Rightarrow> run_state \<Rightarrow> run_state" where
  "aenter i s = emit i [Acquire] (s\<lparr>semaphore := semaphore s - 1\<rparr>)"

definition aexit :: "nat \<Rightarrow> run_state \<Rightarrow> run_state" where
  "aexit i s = emit i [Release] (s\<lparr>semaphore := semaphore s + 1\<rparr>)"

text \<open>Lines 70-72, the body of \<open>except Exception\<close>.\<close>

definition except_clause :: "nat \<Rightarrow> exc \<Rightarrow> run_state \<Rightarrow> run_state" where
  "except_clause i e s = emit i [Traceback e] (s\<lparr>failure_count := failure_count s + 1\<rparr>)"

text \<open>Lines 73-74.\<close>

definition finally_clause :: "nat \<Rightarrow> run_state \<Rightarrow> run_state" where
  "finally_clause i s = emit i [Progress] (s\<lparr>progress_bar := progress_bar s + 1\<rparr>)"

text \<open>
  An exception raised inside the \<open>try\<close> of work item \<open>i\<close>: the handler runs when the
  exception is an \<open>Exception\<close>, then the \<open>finally\<close> clause, then the semaphore is
  given back; an exception that is not handled leaves the coroutine.
\<close>

definition raise_in_try :: "nat \<Rightarrow> exc \<Rightarrow> run_state \<Rightarrow> run_state" where
  "raise_in_try i e s =
     (let s1 = (if is_Exception e then except_clause i e s else s);
          s2 = finally_clause i s1;
          s3 = aexit i s2
      in s3\<lparr>tasks := (tasks s3)[i := Finished (if is_Exception e then Failure_exception e
                                                else Propagated e)]\<rparr>)"

text \<open>
  \<open>make_request\<close> from line 43 up to the suspension in line 56. \<open>r\<close> is the output of
  the random generator, \<open>ds\<close> the time \<open>random.choice\<close> takes and \<open>db\<close> the time the
  construction of the payload takes.
\<close>

definition make_request_enter :: "nat \<Rightarrow> nat \<Rightarrow> real \<Rightarrow> real \<Rightarrow> run_state \<Rightarrow> run_state" where
  "make_request_enter i r ds db s =
     (let s1 = aenter i s;
          start_time = clock s1;
          s2 = emit i [ReadClock start_time] s1
      in case get_random_prompt (data_pool s2) r of
           Inl e \<Rightarrow> raise_in_try i e s2
         | Inr prompt \<Rightarrow>
             (let s3 = advance ds (emit i [Sample prompt] s2);
                  data = payload prompt;
                  s4 = advance db (emit i [Build data] s3);
                  s5 = emit i [Post \<lparr>req_url = url s4, req_json = data,
                                     req_timeout = client_timeout s4\<rparr>] s4
              in s5\<lparr>tasks := (tasks s5)[i := Awaiting start_time]\<rparr>))"

text \<open>
  \<open>make_request\<close> from the resumption in line 56 to its end: lines 57-67 when the POST
  returned a response, the exception path when it raised.
\<close>

definition make_request_resume :: "nat \<Rightarrow> real \<Rightarrow> post_result \<Rightarrow> run_state \<Rightarrow> run_state" where
  "make_request_resume i start_time res s =
     (case res of
        Raised e \<Rightarrow> raise_in_try i e s
      | Returned status_code \<Rightarrow>
          (let end_time = clock s;
               s1 = emit i [ReadClock end_time] s;
               elapsed_time = end_time - start_time;
               s2 = s1\<lparr>total_time := total_time s1 + elapsed_time\<rparr>;
               s3 = s2\<lparr>completed_requests := completed_requests s2 + 1\<rparr>;
               s4 = (if status_code = 200 then s3\<lparr>success_count := success_count s3 + 1\<rparr>
                     else s3\<lparr>failure_count := failure_count s3 + 1\<rparr>);
               s5 = aexit i (finally_clause i s4)
           in s5\<lparr>tasks := (tasks s5)[i := Finished (if status_code = 200 then Success elapsed_time
                                                     else Failure_status status_code elapsed_time)]\<rparr>))"

text \<open>
  What the event loop and the outside do: time passes; a waiting task gets a permit and
  runs to its POST; the POST of a suspended task resolves. Between two suspension points a
  coroutine runs alone, so each event is one step.
\<close>

datatype event = Tick real | Start nat nat real real | Resolve nat post_result

fun step :: "event \<Rightarrow> run_state \<Rightarrow> run_state option" where
  "step (Tick d) s = (if 0 \<le> d then Some (advance d s) else None)"
| "step (Start i r ds db) s =
     (if i < length (tasks s) \<and> tasks s ! i = Pending \<and> 0 < semaphore s \<and> 0 \<le> ds \<and> 0 \<le> db
      then Some (make_request_enter i r ds db s) else None)"
| "step (Resolve i res) s =
     (if i < length (tasks s)
      then (case tasks s ! i of
              Awaiting start_time \<Rightarrow> Some (make_request_resume i start_time res s)
            | _ \<Rightarrow> None)
      else None)"

fun exec :: "event list \<Rightarrow> run_state \<Rightarrow> run_state option" where
  "exec [] s = Some s"
| "exec (e # es) s = (case step e s of None \<Rightarrow> None | Some s' \<Rightarrow> exec es s')"

text \<open>
  \<open>run\<close> (lines 76-83) under a schedule: \<open>None\<close> when the semaphore cannot be built
  or the schedule asks for a step that is not enabled.
\<close>

definition run :: "HttpBenchmark \<Rightarrow> real \<Rightarrow> event list \<Rightarrow> run_state option" where
  "run b t evs = (case run_init b t of Inl e \<Rightarrow> None | Inr s0 \<Rightarrow> exec evs s0)"

text \<open>\<open>asyncio.gather\<close> returns once every task has finished without raising.\<close>

fun returned :: "task \<Rightarrow> bool" where
  "returned (Finished (Propagated e)) = False"
| "returned (Finished out) = True"
| "returned t = False"

definition gathered :: "run_state \<Rightarrow> bool" where
  "gathered s = list_all returned (tasks s)"

section \<open>The report\<close>

text \<open>Python's \<open>/\<close> on numbers: it raises \<open>ZeroDivisionError\<close> when the divisor is zero.\<close>

definition truediv :: "real \<Rightarrow> real \<Rightarrow> exc + real" where
  "truediv x y = (if y = 0 then Inl ZeroDivisionError else Inr (x / y))"

text \<open>Lines 90-99.\<close>

definition qps :: "'a HttpBenchmark_scheme \<Rightarrow> real \<Rightarrow> exc + real" where
  "qps b total_duration =
     (if total_duration > 0 then truediv (real_of_int (completed_requests b)) total_duration
      else Inr 0)"

definition average_time :: "'a HttpBenchmark_scheme \<Rightarrow> exc + real" where
  "average_time b =
     (if success_count b > 0 then truediv (total_time b) (real_of_int (success_count b))
      else Inr 0)"

record report =
  rep_total_requests :: int
  rep_concurrency :: int
  rep_success_count :: int
  rep_failure_count :: int
  rep_total_duration :: real
  rep_average_time :: real
  rep_qps :: real

text \<open>
  \<open>run_benchmark\<close> (lines 85-112): \<open>start_time\<close> is the clock before the run and
  \<open>end_time\<close> the clock when \<open>asyncio.run\<close> has returned. The result is \<open>None\<close> when
  \<open>asyncio.run\<close> does not return normally, \<open>Some (Inl e)\<close> when computing the metrics
  raises \<open>e\<close>, and \<open>Some (Inr rep)\<close> with the values printed otherwise.
\<close>

definition run_benchmark :: "HttpBenchmark \<Rightarrow> real \<Rightarrow> event list \<Rightarrow> (exc + report) option" where
  "run_benchmark b start_time evs =
     (case run b start_time evs of
        None \<Rightarrow> None
      | Some s \<Rightarrow>
          if gathered s
          then (let end_time = clock s;
                    total_duration = end_time - start_time
                in case qps s total_duration of
                     Inl e \<Rightarrow> Some (Inl e)
                   | Inr q \<Rightarrow>
                       (case average_time s of
                          Inl e \<Rightarrow> Some (Inl e)
                        | Inr average \<Rightarrow>
                            Some (Inr \<lparr>rep_total_requests = total_requests s,
                                        rep_concurrency = concurrency s,
                                        rep_success_count = success_count s,
                                        rep_failure_count = failure_count s,
                                        rep_total_duration = total_duration,
                                        rep_average_time = average, rep_qps = q\<rparr>)))
          else None)"

section \<open>Measures on the tasks\<close>

definition tally :: "(task \<Rightarrow> 'a::ab_group_add) \<Rightarrow> task list \<Rightarrow> 'a" where
  "tally f ts = sum_list (map f ts)"

fun succeeded :: "task \<Rightarrow> int" where
  "succeeded (Finished (Success d)) = 1"
| "succeeded t = 0"

fun failed :: "task \<Rightarrow> int" where
  "failed (Finished (Failure_status c d)) = 1"
| "failed (Finished (Failure_exception e)) = 1"
| "failed t = 0"

fun responded :: "task \<Rightarrow> int" where
  "responded (Finished (Success d)) = 1"
| "responded (Finished (Failure_status c d)) = 1"
| "responded t = 0"

fun excepted :: "task \<Rightarrow> int" where
  "excepted (Finished (Failure_exception e)) = 1"
| "excepted t = 0"

fun escaped :: "task \<Rightarrow> int" where
  "escaped (Finished (Propagated e)) = 1"
| "escaped t = 0"

fun finished :: "task \<Rightarrow> int" where
  "finished (Finished out) = 1"
| "finished t = 0"

fun awaiting :: "task \<Rightarrow> int" where
  "awaiting (Awaiting t0) = 1"
| "awaiting t = 0"

fun elapsed :: "task \<Rightarrow> real" where
  "elapsed (Finished (Success d)) = d"
| "elapsed (Finished (Failure_status c d)) = d"
| "elapsed t = 0"

text \<open>The actions of work item \<open>i\<close>, with their times, in order.\<close>

definition item_trace :: "nat \<Rightarrow> (real \<times> nat \<times> action) list \<Rightarrow> (real \<times> action) list" where
  "item_trace i tr = map (\<lambda>x. (fst x, snd (snd x))) (filter (\<lambda>x. fst (snd x) = i) tr)"

definition actions_of :: "nat \<Rightarrow> run_state \<Rightarrow> (real \<times> action) list" where
  "actions_of i s = item_trace i (trace s)"

fun is_Post :: "real \<times> action \<Rightarrow> bool" where
  "is_Post (t, Post rq) = True"
| "is_Post (t, a) = False"

definition posts_of :: "nat \<Rightarrow> run_state \<Rightarrow> (real \<times> action) list" where
  "posts_of i s = filter is_Post (actions_of i s)"

fun is_Sample :: "real \<times> action \<Rightarrow> bool" where
  "is_Sample (t, Sample p) = True"
| "is_Sample (t, a) = False"

definition samples_of :: "nat \<Rightarrow> run_state \<Rightarrow> (real \<times> action) list" where
  "samples_of i s = filter is_Sample (actions_of i s)"




text \<open>The work item an event belongs to, and the exception an event raises inside it.\<close>

fun item_of :: "event \<Rightarrow> nat option" where
  "item_of (Tick d) = None"
| "item_of (Start i r ds db) = Some i"
| "item_of (Resolve i res) = Some i"

fun raised :: "event \<Rightarrow> run_state \<Rightarrow> (nat \<times> exc) option" where
  "raised (Tick d) s = None"
| "raised (Start i r ds db) s =
     (case get_random_prompt (data_pool s) r of Inl e \<Rightarrow> Some (i, e) | Inr p \<Rightarrow> None)"
| "raised (Resolve i (Raised e)) s = Some (i, e)"
| "raised (Resolve i (Returned c)) s = None"

text \<open>An event that raises nothing but instances of \<open>Exception\<close>.\<close>

fun catchable :: "event \<Rightarrow> bool" where
  "catchable (Resolve i (Raised e)) = is_Exception e"
| "catchable ev = True"

section \<open>Invariants of the run\<close>

text \<open>
  The counters of the object are the counters it started with plus what the finished
  tasks account for; the permits out are those of the suspended tasks; the configuration
  does not change.
\<close>

definition counted :: "HttpBenchmark \<Rightarrow> run_state \<Rightarrow> bool" where
  "counted b s \<longleftrightarrow>
     success_count s = success_count b + tally succeeded (tasks s) \<and>
     failure_count s = failure_count b + tally failed (tasks s) \<and>
     completed_requests s = completed_requests b + tally responded (tasks s) \<and>
     total_time s = total_time b + tally elapsed (tasks s) \<and>
     progress_bar s = progress_bar b + tally finished (tasks s) \<and>
     int (semaphore s) + tally awaiting (tasks s) = concurrency b \<and>
     length (tasks s) = nat (total_requests b) \<and>
     url s = url b \<and> data_pool s = data_pool b \<and>
     total_requests s = total_requests b \<and> concurrency s = concurrency b \<and>
     client_timeout s = httpx_Timeout 60"

text \<open>
  The actions of a work item up to its POST: the permit, the start timestamp \<open>t0\<close>, the
  sampled prompt, the payload at \<open>tb\<close>, the POST at \<open>tp\<close>.
\<close>

definition entered :: "string \<Rightarrow> real \<Rightarrow> ustr \<Rightarrow> real \<Rightarrow> real \<Rightarrow> (real \<times> action) list" where
  "entered u t0 p tb tp =
     [(t0, Acquire), (t0, ReadClock t0), (t0, Sample p), (tb, Build (payload p)),
      (tp, Post \<lparr>req_url = u, req_json = payload p, req_timeout = httpx_Timeout 60\<rparr>)]"

definition called ::
  "HttpBenchmark \<Rightarrow> real \<Rightarrow> real \<Rightarrow> real \<Rightarrow> (real \<times> action) list \<Rightarrow> (real \<times> action) list \<Rightarrow> bool" where
  "called b now t0 t1 rest tr \<longleftrightarrow>
     (\<exists>p\<in>set (data_pool b). \<exists>tb tp. t0 \<le> tb \<and> tb \<le> tp \<and> tp \<le> t1 \<and> t1 \<le> now \<and>
        tr = entered (url b) t0 p tb tp @ rest)"

text \<open>What the actions of a work item are, by the state of its task.\<close>

fun shape :: "HttpBenchmark \<Rightarrow> real \<Rightarrow> task \<Rightarrow> (real \<times> action) list \<Rightarrow> bool" where
  "shape b now Pending tr = (tr = [])"
| "shape b now (Awaiting t0) tr = called b now t0 now [] tr"
| "shape b now (Finished (Success d)) tr =
     (\<exists>t0 t1. d = t1 - t0 \<and>
        called b now t0 t1 [(t1, ReadClock t1), (t1, Progress), (t1, Release)] tr)"
| "shape b now (Finished (Failure_status c d)) tr =
     (c \<noteq> 200 \<and> (\<exists>t0 t1. d = t1 - t0 \<and>
        called b now t0 t1 [(t1, ReadClock t1), (t1, Progress), (t1, Release)] tr))"
| "shape b now (Finished (Failure_exception e)) tr =
     (is_Exception e \<and>
      ((data_pool b = [] \<and> e = ValueError \<and>
        (\<exists>t0. t0 \<le> now \<and>
           tr = [(t0, Acquire), (t0, ReadClock t0), (t0, Traceback e), (t0, Progress),
                 (t0, Release)])) \<or>
       (\<exists>t0 t1. called b now t0 t1 [(t1, Traceback e), (t1, Progress), (t1, Release)] tr)))"
| "shape b now (Finished (Propagated e)) tr =
     (\<not> is_Exception e \<and>
      (\<exists>t0 t1. called b now t0 t1 [(t1, Progress), (t1, Release)] tr))"

definition traced :: "HttpBenchmark \<Rightarrow> run_state \<Rightarrow> bool" where
  "traced b s \<longleftrightarrow>
     (\<forall>i<length (tasks s). shape b (clock s) (tasks s ! i) (item_trace i (trace s)))"

section \<open>Five runs\<close>

text \<open>
  Two work items and one permit, with a dataset of one prompt: the POST of the first work
  item is refused, the second gets status 200. \<open>refused_before\<close> is the state in which
  the POST of the first is outstanding.
\<close>

definition refused_bench :: HttpBenchmark where
  "refused_bench = HttpBenchmark_init ''http://h/generate'' 2 1 ''test.txt'' (Some (str ''hi''))"

definition refused_before :: "run_state option" where
  "refused_before = run refused_bench 0 [Start 0 0 0 0, Tick 1]"

definition refused_run :: "run_state option" where
  "refused_run =
     run refused_bench 0
       [Start 0 0 0 0, Tick 1, Resolve 0 (Raised (OtherException ''ConnectError'')),
        Start 1 0 0 0, Tick 2, Resolve 1 (Returned 200), Tick 1]"

text \<open>
  Two work items, two permits: the first gets 200 after one second, the second gets 500
  after three.
\<close>

definition mixed_run :: "run_state option" where
  "mixed_run =
     run (HttpBenchmark_init ''http://h/generate'' 2 2 ''test.txt'' (Some (str ''hi''))) 0
       [Start 0 0 0 0, Start 1 0 0 0, Tick 1, Resolve 0 (Returned 200),
        Tick 2, Resolve 1 (Returned 500)]"

text \<open>
  One work item: sampling takes one second, building the payload one second, and the
  response with status 200 comes three seconds after the POST.
\<close>

definition slow_sample_run :: "run_state option" where
  "slow_sample_run =
     run (HttpBenchmark_init ''http://h/generate'' 1 1 ''test.txt'' (Some (str ''hi''))) 0
       [Start 0 0 1 1, Tick 3, Resolve 0 (Returned 200)]"

text \<open>
  One work item and a dataset of two prompts, of which the generator picks the second.
\<close>

definition second_prompt_run :: "run_state option" where
  "second_prompt_run =
     run (HttpBenchmark_init ''http://h/generate'' 1 1 ''test.txt''
            (Some (str ''a'' @ [LF] @ str ''b''))) 0
       [Start 0 1 0 0, Tick 1, Resolve 0 (Returned 200)]"

text \<open>One work item, and a dataset file that cannot be read.\<close>

definition empty_bench :: HttpBenchmark where
  "empty_bench = HttpBenchmark_init ''http://h/generate'' 1 1 ''missing.txt'' None"

definition empty_pool_run :: "run_state option" where
  "empty_pool_run = run empty_bench 0 [Start 0 0 0 0]"

lemma replicate_numeral: "replicate (numeral k) x = x # replicate (pred_numeral k) x"
  by (simp add: numeral_eq_Suc)

lemmas block_defs =
  make_request_enter_def make_request_resume_def raise_in_try_def except_clause_def
  finally_clause_def aenter_def aexit_def emit_def advance_def Let_def

lemmas model_defs =
  run_def run_init_def HttpBenchmark_init_def block_defs get_random_prompt_def payload_def

lemmas eval_defs =
  model_defs load_dataset_def file_lines_def strip_def isspace_def LF_def CR_def
  gathered_def actions_of_def posts_of_def item_trace_def str_def replicate_numeral
  refused_bench_def empty_bench_def

section \<open>Properties of the loader and the sampler\<close>

lemma strip_filter_commute:
  "map strip (filter (\<lambda>line. strip line \<noteq> []) ls) = filter (\<lambda>l. l \<noteq> []) (map strip ls)"
  by (induction ls) simp_all

lemma load_dataset_no_blank: "[] \<notin> set (load_dataset content)"
  by (cases content) (auto simp: load_dataset_def)

lemma strip_decompose:
  "\<exists>pre post. s = pre @ strip s @ post \<and> (\<forall>c\<in>set pre. isspace c) \<and> (\<forall>c\<in>set post. isspace c)"
proof -
  let ?d = "dropWhile isspace s"
  let ?pre = "takeWhile isspace s"
  let ?post = "rev (takeWhile isspace (rev ?d))"
  have "rev (takeWhile isspace (rev ?d) @ dropWhile isspace (rev ?d)) = rev (rev ?d)"
    by (simp only: takeWhile_dropWhile_id)
  then have "rev (dropWhile isspace (rev ?d)) @ ?post = ?d"
    by (simp only: rev_append rev_rev_ident)
  then have d: "?d = strip s @ ?post" by (simp only: strip_def)
  have "s = ?pre @ ?d" by simp
  with d have "s = ?pre @ strip s @ ?post" by simp
  moreover have "\<forall>c\<in>set ?pre. isspace c" by (auto dest: set_takeWhileD)
  moreover have "\<forall>c\<in>set ?post. isspace c" by (auto dest: set_takeWhileD)
  ultimately show ?thesis by blast
qed

lemma strip_ends:
  assumes "strip s \<noteq> []"
  shows "\<not> isspace (hd (strip s)) \<and> \<not> isspace (last (strip s))"
proof -
  let ?d = "dropWhile isspace s"
  let ?e = "dropWhile isspace (rev ?d)"
  from assms have e: "?e \<noteq> []" by (simp add: strip_def)
  have d: "?d \<noteq> []"
  proof
    assume "?d = []"
    then have "?e = []" by (simp only: rev.simps dropWhile.simps)
    with e show False by (simp only: not_False_eq_True simp_thms)
  qed
  have "last (strip s) = hd ?e" using e by (simp add: strip_def last_rev)
  moreover have "\<not> isspace (hd ?e)" using e by (rule hd_dropWhile)
  moreover have "hd (strip s) = last ?e" using e by (simp add: strip_def hd_rev)
  moreover have "last ?e = last (rev ?d)"
  proof -
    have "last (takeWhile isspace (rev ?d) @ ?e) = last (rev ?d)"
      by (simp only: takeWhile_dropWhile_id)
    with e show ?thesis by (metis last_appendR)
  qed
  moreover have "last (rev ?d) = hd ?d" using d by (simp add: last_rev)
  moreover have "\<not> isspace (hd ?d)" using d by (rule hd_dropWhile)
  ultimately show ?thesis by simp
qed

lemma isspace_iff:
  "isspace c \<longleftrightarrow>
     c \<in> {0x09..0x0D} \<union> {0x1C..0x20} \<union> {0x85, 0xA0, 0x1680} \<union> {0x2000..0x200A} \<union>
         {0x2028, 0x2029, 0x202F, 0x205F, 0x3000}"
  by (auto simp: isspace_def)

lemma universal_newlines_append:
  "\<not> (a \<noteq> [] \<and> last a = CR \<and> b \<noteq> [] \<and> hd b = LF) \<Longrightarrow>
     universal_newlines (a @ b) = universal_newlines a @ universal_newlines b"
proof (induction a rule: universal_newlines.induct)
  case 1
  then show ?case by simp
next
  case (2 c)
  then show ?case by (cases b) auto
next
  case (3 c d cs)
  then show ?case by (cases cs) (auto split: if_splits)
qed

lemma universal_newlines_no_CR: "CR \<notin> set (universal_newlines t)"
  by (induction t rule: universal_newlines.induct) (auto simp: LF_def CR_def)

lemma split_lines_concat: "concat (split_lines t) = t"
  by (induction t) (auto split: list.splits)

lemma split_lines_line:
  "l \<in> set (split_lines t) \<Longrightarrow> l \<noteq> [] \<and> LF \<notin> set (butlast l)"
proof (induction t arbitrary: l)
  case Nil
  then show ?case by simp
next
  case (Cons c cs)
  show ?case
  proof (cases "c = LF")
    case True
    with Cons show ?thesis by auto
  next
    case False
    show ?thesis
    proof (cases "split_lines cs")
      case Nil
      with False Cons.prems show ?thesis by simp
    next
      case (Cons m ms)
      with Cons.IH [of m] have m: "m \<noteq> []" "LF \<notin> set (butlast m)" by simp_all
      from Cons False Cons.prems have "l = c # m \<or> l \<in> set ms" by simp
      then show ?thesis
      proof
        assume "l = c # m"
        with m False show ?thesis by simp
      next
        assume "l \<in> set ms"
        with Cons Cons.IH [of l] show ?thesis by simp
      qed
    qed
  qed
qed

lemma split_lines_terminated:
  "l \<in> set (butlast (split_lines t)) \<Longrightarrow> last l = LF"
proof (induction t arbitrary: l)
  case Nil
  then show ?case by simp
next
  case (Cons c cs)
  show ?case
  proof (cases "c = LF")
    case True
    with Cons show ?thesis by (auto split: if_splits)
  next
    case False
    show ?thesis
    proof (cases "split_lines cs")
      case Nil
      with False Cons.prems show ?thesis by simp
    next
      case (Cons m ms)
      have m: "m \<noteq> []" using split_lines_line [of m cs] Cons by simp
      from Cons False Cons.prems have in': "ms \<noteq> [] \<and> (l = c # m \<or> l \<in> set (butlast ms))"
        by (auto split: if_splits)
      then have "l = c # m \<or> l \<in> set (butlast ms)" by simp
      then show ?thesis
      proof
        assume l: "l = c # m"
        from in' Cons have "m \<in> set (butlast (split_lines cs))" by simp
        from Cons.IH [OF this] l m show ?thesis by simp
      next
        assume "l \<in> set (butlast ms)"
        with in' Cons have "l \<in> set (butlast (split_lines cs))" by simp
        from Cons.IH [OF this] show ?thesis .
      qed
    qed
  qed
qed


lemma load_dataset_members:
  "p \<in> set (load_dataset (Some t)) \<longleftrightarrow> p \<noteq> [] \<and> (\<exists>l\<in>set (file_lines t). p = strip l)"
  by (auto simp: load_dataset_def)

section \<open>The counters follow the tasks\<close>

lemma tally_update:
  "i < length ts \<Longrightarrow> tally f (ts[i := x]) = tally f ts - f (ts ! i) + f x"
proof (induction ts arbitrary: i)
  case Nil
  then show ?case by simp
next
  case (Cons t ts)
  show ?case
  proof (cases i)
    case 0
    then show ?thesis by (simp add: tally_def algebra_simps)
  next
    case (Suc j)
    with Cons.prems have "j < length ts" by simp
    from Cons.IH [OF this] Suc show ?thesis by (simp add: tally_def algebra_simps)
  qed
qed

lemma tally_replicate: "f x = 0 \<Longrightarrow> tally f (replicate n x) = 0"
  by (induction n) (simp_all add: tally_def)

lemma counted_init: "run_init b t = Inr s0 \<Longrightarrow> counted b s0"
  by (auto simp: run_init_def counted_def tally_replicate split: if_splits)

lemma counted_tick: "counted b s \<Longrightarrow> counted b (advance d s)"
  by (simp add: counted_def advance_def)

lemma counted_raise:
  assumes "counted b s" "i < length (tasks s)" "tasks s ! i = Awaiting t0 \<or> (tasks s ! i = Pending \<and> 0 < semaphore s)"
  shows "counted b (raise_in_try i e (if tasks s ! i = Pending then emit i [ReadClock t] (aenter i s) else s))"
  using assms
  by (cases e) (auto simp: counted_def raise_in_try_def except_clause_def finally_clause_def aexit_def aenter_def emit_def Let_def tally_update)

lemma counted_enter:
  assumes "counted b s" "i < length (tasks s)" "tasks s ! i = Pending" "0 < semaphore s"
  shows "counted b (make_request_enter i r ds db s)"
proof (cases "get_random_prompt (data_pool s) r")
  case (Inl e)
  have "make_request_enter i r ds db s = raise_in_try i e (emit i [ReadClock (clock s)] (aenter i s))"
    using Inl by (simp add: make_request_enter_def aenter_def emit_def Let_def)
  with counted_raise [OF assms(1,2), of "clock s" e] assms(3,4) show ?thesis by simp
next
  case (Inr p)
  then show ?thesis using assms
    by (auto simp: counted_def make_request_enter_def aenter_def emit_def advance_def Let_def tally_update)
qed

lemma counted_resume:
  assumes "counted b s" "i < length (tasks s)" "tasks s ! i = Awaiting t0"
  shows "counted b (make_request_resume i t0 res s)"
proof (cases res)
  case (Returned c)
  then show ?thesis using assms
    by (auto simp: counted_def make_request_resume_def finally_clause_def aexit_def emit_def Let_def tally_update)
next
  case (Raised e)
  with counted_raise [OF assms(1,2), of t0 e] assms(3) show ?thesis
    by (simp add: make_request_resume_def)
qed

lemma counted_step: "counted b s \<Longrightarrow> step ev s = Some s' \<Longrightarrow> counted b s'"
proof (cases ev)
  case (Tick d)
  assume "counted b s" "step ev s = Some s'"
  with Tick show ?thesis by (auto simp: counted_tick split: if_splits)
next
  case (Start i r ds db)
  assume "counted b s" "step ev s = Some s'"
  with Start show ?thesis by (auto simp: counted_enter split: if_splits)
next
  case (Resolve i res)
  assume "counted b s" "step ev s = Some s'"
  with Resolve show ?thesis by (auto simp: counted_resume split: if_splits task.splits)
qed

lemma counted_exec: "counted b s \<Longrightarrow> exec evs s = Some s' \<Longrightarrow> counted b s'"
  by (induction evs arbitrary: s) (auto split: option.splits dest: counted_step)

lemma counted_run: "run b t evs = Some s \<Longrightarrow> counted b s"
  by (auto simp: run_def split: sum.splits dest: counted_init counted_exec)

section \<open>The actions of a work item follow its task\<close>

lemma item_trace_Nil [simp]: "item_trace i [] = []"
  by (simp add: item_trace_def)

lemma item_trace_append [simp]: "item_trace i (xs @ ys) = item_trace i xs @ item_trace i ys"
  by (simp add: item_trace_def)

lemma item_trace_Cons [simp]:
  "item_trace i ((t, j, a) # xs) = (if j = i then (t, a) # item_trace i xs else item_trace i xs)"
  by (simp add: item_trace_def)

lemma called_mono: "called b now t0 t1 rest tr \<Longrightarrow> now \<le> now' \<Longrightarrow> called b now' t0 t1 rest tr"
  by (fastforce simp: called_def)

lemma called_now_mono: "called b now t0 now rest tr \<Longrightarrow> now \<le> now' \<Longrightarrow> called b now' t0 now' rest tr"
  by (fastforce simp: called_def)

lemma shape_mono: "shape b now tk tr \<Longrightarrow> now \<le> now' \<Longrightarrow> shape b now' tk tr"
proof (induction b now tk tr rule: shape.induct)
  case (2 b now t0 tr)
  then show ?case by (simp add: called_now_mono)
next
  case (5 b now e tr)
  then show ?case by (auto intro: called_mono order_trans)
qed (auto intro: called_mono)

lemma traced_step_item:
  assumes tr: "traced b s"
    and i: "i < length (tasks s)"
    and clk: "clock s \<le> clock s'"
    and tk: "tasks s' = (tasks s)[i := tk]"
    and acts: "trace s' = trace s @ map (\<lambda>x. (fst x, i, snd x)) acts"
    and sh: "shape b (clock s') tk (item_trace i (trace s) @ acts)"
  shows "traced b s'"
  unfolding traced_def
proof (intro allI impI)
  fix j assume j: "j < length (tasks s')"
  have own: "item_trace i (map (\<lambda>x. (fst x, i, snd x)) acts) = acts"
    by (induction acts) (simp_all add: item_trace_def)
  show "shape b (clock s') (tasks s' ! j) (item_trace j (trace s'))"
  proof (cases "j = i")
    case True
    with sh i show ?thesis by (simp add: tk acts own)
  next
    case False
    then have other: "item_trace j (map (\<lambda>x. (fst x, i, snd x)) acts) = []"
      by (induction acts) (simp_all add: item_trace_def)
    from j tk have "j < length (tasks s)" by simp
    with tr have "shape b (clock s) (tasks s ! j) (item_trace j (trace s))"
      by (simp add: traced_def)
    from shape_mono [OF this clk] False show ?thesis by (simp add: tk acts other)
  qed
qed

lemma traced_init: "run_init b t = Inr s0 \<Longrightarrow> traced b s0"
  by (auto simp: run_init_def traced_def split: if_splits)

lemma traced_tick: "traced b s \<Longrightarrow> 0 \<le> d \<Longrightarrow> traced b (advance d s)"
  by (auto simp: traced_def advance_def intro: shape_mono)

lemma traced_enter:
  assumes c: "counted b s" and tr: "traced b s" and i: "i < length (tasks s)"
    and p: "tasks s ! i = Pending" and ds: "0 \<le> ds" and db: "0 \<le> db"
  shows "traced b (make_request_enter i r ds db s)"
proof -
  from c have cfg: "url s = url b" "data_pool s = data_pool b"
    "client_timeout s = httpx_Timeout 60"
    by (simp_all add: counted_def)
  from tr i p have empty: "item_trace i (trace s) = []"
    by (auto simp: traced_def)
  show ?thesis
  proof (cases "data_pool b = []")
    case True
    show ?thesis
      by (rule traced_step_item [OF tr i, where tk = "Finished (Failure_exception ValueError)"
            and acts = "[(clock s, Acquire), (clock s, ReadClock (clock s)),
                         (clock s, Traceback ValueError), (clock s, Progress), (clock s, Release)]"])
        (simp_all add: block_defs get_random_prompt_def cfg True empty)
  next
    case False
    let ?p = "data_pool b ! (r mod length (data_pool b))"
    from False have mem: "?p \<in> set (data_pool b)" by simp
    show ?thesis
    proof (rule traced_step_item [OF tr i, where tk = "Awaiting (clock s)"
            and acts = "entered (url b) (clock s) ?p (clock s + ds) (clock s + ds + db)"])
      show "clock s \<le> clock (make_request_enter i r ds db s)"
        using ds db False by (simp add: block_defs get_random_prompt_def cfg)
      show "tasks (make_request_enter i r ds db s) = (tasks s)[i := Awaiting (clock s)]"
        using False by (simp add: block_defs get_random_prompt_def cfg)
      show "trace (make_request_enter i r ds db s) =
              trace s @ map (\<lambda>x. (fst x, i, snd x))
                (entered (url b) (clock s) ?p (clock s + ds) (clock s + ds + db))"
        using False by (simp add: block_defs get_random_prompt_def cfg entered_def)
      have now: "clock (make_request_enter i r ds db s) = clock s + ds + db"
        using False by (simp add: block_defs get_random_prompt_def cfg)
      have "called b (clock s + ds + db) (clock s) (clock s + ds + db) []
              (entered (url b) (clock s) ?p (clock s + ds) (clock s + ds + db))"
        unfolding called_def
        by (rule bexI [OF _ mem], rule exI [of _ "clock s + ds"],
            rule exI [of _ "clock s + ds + db"]) (use ds db in simp)
      then show "shape b (clock (make_request_enter i r ds db s)) (Awaiting (clock s))
              (item_trace i (trace s) @ entered (url b) (clock s) ?p (clock s + ds) (clock s + ds + db))"
        by (simp add: now empty)
    qed
  qed
qed

lemma traced_resume:
  assumes tr: "traced b s" and i: "i < length (tasks s)" and a: "tasks s ! i = Awaiting t0"
  shows "traced b (make_request_resume i t0 res s)"
proof -
  from tr i a have sh: "called b (clock s) t0 (clock s) [] (item_trace i (trace s))"
    by (auto simp: traced_def)
  have ext: "called b (clock s) t0 (clock s) rest (item_trace i (trace s) @ rest)" for rest
    using sh by (auto simp: called_def)
  show ?thesis
  proof (cases res)
    case (Returned c)
    show ?thesis
      by (rule traced_step_item [OF tr i, where tk = "Finished (if c = 200 then Success (clock s - t0)
                else Failure_status c (clock s - t0))"
            and acts = "[(clock s, ReadClock (clock s)), (clock s, Progress), (clock s, Release)]"])
        (use ext in \<open>auto simp: block_defs Returned\<close>)
  next
    case (Raised e)
    show ?thesis
    proof (cases "is_Exception e")
      case True
      show ?thesis
        by (rule traced_step_item [OF tr i, where tk = "Finished (Failure_exception e)"
              and acts = "[(clock s, Traceback e), (clock s, Progress), (clock s, Release)]"])
          (use ext True in \<open>auto simp: block_defs Raised\<close>)
    next
      case False
      show ?thesis
        by (rule traced_step_item [OF tr i, where tk = "Finished (Propagated e)"
              and acts = "[(clock s, Progress), (clock s, Release)]"])
          (use ext False in \<open>auto simp: block_defs Raised\<close>)
    qed
  qed
qed

lemma traced_step: "counted b s \<Longrightarrow> traced b s \<Longrightarrow> step ev s = Some s' \<Longrightarrow> traced b s'"
proof (cases ev)
  case (Tick d)
  assume "counted b s" "traced b s" "step ev s = Some s'"
  with Tick show ?thesis by (auto simp: traced_tick split: if_splits)
next
  case (Start i r ds db)
  assume "counted b s" "traced b s" "step ev s = Some s'"
  with Start show ?thesis by (auto simp: traced_enter split: if_splits)
next
  case (Resolve i res)
  assume "counted b s" "traced b s" "step ev s = Some s'"
  with Resolve show ?thesis by (auto simp: traced_resume split: if_splits task.splits)
qed

lemma traced_exec: "counted b s \<Longrightarrow> traced b s \<Longrightarrow> exec evs s = Some s' \<Longrightarrow> traced b s'"
proof (induction evs arbitrary: s)
  case Nil
  then show ?case by simp
next
  case (Cons e es)
  from Cons.prems(3) obtain s1 where s1: "step e s = Some s1" "exec es s1 = Some s'"
    by (auto split: option.splits)
  from Cons.IH [OF counted_step [OF Cons.prems(1) s1(1)] traced_step [OF Cons.prems(1,2) s1(1)] s1(2)]
  show ?case .
qed

lemma traced_run: "run b t evs = Some s \<Longrightarrow> traced b s"
  by (auto simp: run_def split: sum.splits dest: counted_init traced_init traced_exec)

section \<open>The clock, the finished tasks and the exception path\<close>

lemma clock_mono_step: "step ev s = Some s' \<Longrightarrow> clock s \<le> clock s'"
  by (cases ev)
    (auto simp: block_defs split: if_splits task.splits sum.splits post_result.splits)

lemma clock_mono_exec: "exec evs s = Some s' \<Longrightarrow> clock s \<le> clock s'"
proof (induction evs arbitrary: s)
  case Nil
  then show ?case by simp
next
  case (Cons e es)
  then obtain s1 where "step e s = Some s1" "exec es s1 = Some s'"
    by (auto split: option.splits)
  with Cons.IH [of s1] clock_mono_step [of e s s1] show ?case by simp
qed

lemma clock_mono_run: "run b t evs = Some s \<Longrightarrow> t \<le> clock s"
  by (auto simp: run_def run_init_def split: sum.splits if_splits dest: clock_mono_exec)

lemma gathered_tallies:
  "list_all returned ts \<Longrightarrow>
     tally succeeded ts + tally failed ts = int (length ts) \<and>
     tally responded ts + tally excepted ts = int (length ts) \<and>
     tally finished ts = int (length ts)"
proof (induction ts)
  case Nil
  then show ?case by (simp add: tally_def)
next
  case (Cons t ts)
  then have ih: "tally succeeded ts + tally failed ts = int (length ts)"
    "tally responded ts + tally excepted ts = int (length ts)"
    "tally finished ts = int (length ts)" by simp_all
  from Cons.prems have "returned t" by simp
  then have "succeeded t + failed t = 1 \<and> responded t + excepted t = 1 \<and> finished t = 1"
    by (cases t rule: returned.cases) simp_all
  with ih show ?case by (simp add: tally_def)
qed


lemma raised_effect:
  assumes "step ev s = Some s'" "raised ev s = Some (i, e)"
  shows "i < length (tasks s) \<and>
         tasks s' = (tasks s)[i := Finished (if is_Exception e then Failure_exception e
                                              else Propagated e)] \<and>
         failure_count s' = failure_count s + (if is_Exception e then 1 else 0) \<and>
         success_count s' = success_count s \<and>
         completed_requests s' = completed_requests s \<and>
         total_time s' = total_time s \<and>
         progress_bar s' = progress_bar s + 1 \<and>
         semaphore s \<le> semaphore s' \<and> clock s' = clock s \<and>
         url s' = url s \<and> data_pool s' = data_pool s \<and>
         total_requests s' = total_requests s \<and> concurrency s' = concurrency s"
proof (cases ev)
  case (Tick d)
  with assms show ?thesis by simp
next
  case (Start j r ds db)
  with assms show ?thesis
    by (auto simp: block_defs split: if_splits sum.splits)
next
  case (Resolve j res)
  with assms show ?thesis
    by (cases res) (auto simp: block_defs split: if_splits task.splits)
qed

lemma enabled_after:
  assumes "step ev' s \<noteq> None" "item_of ev' \<noteq> Some i" "semaphore s \<le> semaphore s'"
    "tasks s' = (tasks s)[i := tk]"
  shows "step ev' s' \<noteq> None"
proof (cases ev')
  case (Tick d)
  with assms show ?thesis by (simp split: if_splits)
next
  case (Start j r ds db)
  with assms show ?thesis by (auto split: if_splits)
next
  case (Resolve j res)
  with assms show ?thesis by (auto split: if_splits task.splits)
qed

lemma exec_append:
  "exec (xs @ ys) s = (case exec xs s of None \<Rightarrow> None | Some s1 \<Rightarrow> exec ys s1)"
  by (induction xs arbitrary: s) (auto split: option.splits)

lemma run_snoc: "run b t evs = Some s \<Longrightarrow> step ev s = Some s' \<Longrightarrow> run b t (evs @ [ev]) = Some s'"
  by (auto simp: run_def exec_append split: sum.splits)


lemma shape_sample_post:
  "shape b now tk tr \<Longrightarrow> tk \<noteq> Pending \<Longrightarrow>
     (data_pool b \<noteq> [] \<longrightarrow>
        (\<exists>p\<in>set (data_pool b). \<exists>t0 tb tp. t0 \<le> tb \<and> tb \<le> tp \<and>
           take 5 tr = entered (url b) t0 p tb tp \<and>
           filter is_Sample tr = [(t0, Sample p)] \<and>
           filter is_Post tr =
             [(tp, Post \<lparr>req_url = url b, req_json = payload p,
                          req_timeout = httpx_Timeout 60\<rparr>)])) \<and>
     (data_pool b = [] \<longrightarrow> filter is_Sample tr = [] \<and> filter is_Post tr = [])"
  by (induction b now tk tr rule: shape.induct) (auto simp: called_def entered_def)


section \<open>Exceptions that the handler catches\<close>

lemma tasks_enter:
  "tasks (make_request_enter i r ds db s) =
     (tasks s)[i := (case get_random_prompt (data_pool s) r of
                       Inl e \<Rightarrow> Finished (if is_Exception e then Failure_exception e else Propagated e)
                     | Inr p \<Rightarrow> Awaiting (clock s))]"
  by (simp add: block_defs split: sum.splits)

lemma tasks_resume:
  "tasks (make_request_resume i t0 res s) =
     (tasks s)[i := Finished (case res of
                       Raised e \<Rightarrow> (if is_Exception e then Failure_exception e else Propagated e)
                     | Returned c \<Rightarrow> (if c = 200 then Success (clock s - t0)
                                      else Failure_status c (clock s - t0)))]"
  by (simp add: block_defs split: post_result.splits)

lemma escaped_step:
  assumes "step ev s = Some s'" and "catchable ev"
  shows "tally escaped (tasks s') = tally escaped (tasks s)"
proof (cases ev)
  case (Tick d)
  with assms show ?thesis by (auto simp: advance_def split: if_splits)
next
  case (Start i r ds db)
  with assms have i: "i < length (tasks s)" "tasks s ! i = Pending"
    and s': "s' = make_request_enter i r ds db s"
    by (auto split: if_splits)
  show ?thesis
    unfolding s' tasks_enter
    by (simp add: tally_update i get_random_prompt_def)
next
  case (Resolve i res)
  with assms obtain t0 where i: "i < length (tasks s)" "tasks s ! i = Awaiting t0"
    and s': "s' = make_request_resume i t0 res s"
    by (auto split: if_splits task.splits)
  from assms(2) Resolve have "escaped (Finished (case res of
                       Raised e \<Rightarrow> (if is_Exception e then Failure_exception e else Propagated e)
                     | Returned c \<Rightarrow> (if c = 200 then Success (clock s - t0)
                                      else Failure_status c (clock s - t0)))) = 0"
    by (cases res) simp_all
  then show ?thesis
    unfolding s' tasks_resume
    by (simp add: tally_update i)
qed


lemma escaped_exec:
  "exec evs s = Some s' \<Longrightarrow> list_all catchable evs \<Longrightarrow>
     tally escaped (tasks s') = tally escaped (tasks s)"
proof (induction evs arbitrary: s)
  case Nil
  then show ?case by simp
next
  case (Cons e es)
  from Cons.prems obtain s1 where s1: "step e s = Some s1" "exec es s1 = Some s'"
    by (auto split: option.splits)
  from Cons.prems have "catchable e" "list_all catchable es" by simp_all
  with Cons.IH [OF s1(2)] escaped_step [OF s1(1)] show ?case by simp
qed

lemma escaped_run:
  assumes "run b t evs = Some s" and "list_all catchable evs"
  shows "tally escaped (tasks s) = 0"
proof -
  from assms(1) obtain s0 where s0: "run_init b t = Inr s0" "exec evs s0 = Some s"
    by (auto simp: run_def split: sum.splits)
  from s0(1) have "tally escaped (tasks s0) = 0"
    by (auto simp: run_init_def tally_replicate split: if_splits)
  with escaped_exec [OF s0(2) assms(2)] show ?thesis by simp
qed

lemma escaped_range: "0 \<le> escaped t"
  by (cases t rule: escaped.cases) simp_all

lemma tally_escaped_nonneg: "0 \<le> tally escaped ts"
  by (induction ts) (simp_all add: tally_def escaped_range)

lemma tally_escaped_zero: "tally escaped ts = 0 \<Longrightarrow> list_all (\<lambda>t. escaped t = 0) ts"
proof (induction ts)
  case Nil
  then show ?case by simp
next
  case (Cons a ts)
  from Cons.prems escaped_range [of a] tally_escaped_nonneg [of ts]
  have "escaped a = 0" "tally escaped ts = 0"
    by (simp_all add: tally_def)
  with Cons.IH show ?case by simp
qed

lemma returned_iff: "returned t \<longleftrightarrow> finished t = 1 \<and> escaped t = 0"
  by (cases t rule: returned.cases) simp_all

lemma run_returns:
  assumes "run b t evs = Some s" and "list_all catchable evs"
    and "list_all (\<lambda>t. finished t = 1) (tasks s)"
  shows "gathered s \<and> (\<exists>rep. run_benchmark b t evs = Some (Inr rep))"
proof -
  from tally_escaped_zero [OF escaped_run [OF assms(1,2)]] assms(3)
  have "gathered s"
    by (auto simp: gathered_def list_all_iff returned_iff)
  with assms(1) show ?thesis
    by (simp add: run_benchmark_def qps_def average_time_def truediv_def Let_def)
qed


section \<open>The counts at the end of a run\<close>

text \<open>
  C1, as stated: at the end of a run in which every work item reached a terminal outcome,
  the completed count equals the success count plus the failure count and equals
  \<open>total_requests\<close>. It fails: in \<open>refused_run\<close> both work items are finished, one
  by an exception and one with status 200, and the completed count is 1 while the two
  other counts add up to the total 2.
\<close>

theorem completed_count_counterexample:
  "map_option gathered refused_run = Some True \<and>
   map_option total_requests refused_run = Some 2 \<and>
   map_option success_count refused_run = Some 1 \<and>
   map_option failure_count refused_run = Some 1 \<and>
   map_option completed_requests refused_run = Some 1 \<and>
   map_option completed_requests refused_run \<noteq> map_option total_requests refused_run"
  by (simp add: refused_run_def eval_defs)

text \<open>
  C1, amended: at the end of a run of a fresh object with \<open>n\<close> work items, all finished,
  the success count plus the failure count is \<open>n\<close>, the progress bar is at \<open>n\<close>, and
  the completed count is \<open>n\<close> less the number of work items that ended in an exception:
  it counts the work items that received a response.
\<close>

theorem counts_at_run_end:
  assumes "run (HttpBenchmark_init u n c path content) t evs = Some s"
    and "0 \<le> n" and "gathered s"
  shows "success_count s + failure_count s = n \<and>
         completed_requests s + tally excepted (tasks s) = n \<and>
         completed_requests s = tally responded (tasks s) \<and>
         progress_bar s = n"
proof -
  from counted_run [OF assms(1)] have c: "counted (HttpBenchmark_init u n c path content) s" .
  from assms(3) have "list_all returned (tasks s)" by (simp add: gathered_def)
  from gathered_tallies [OF this] c assms(2) show ?thesis
    by (simp add: counted_def HttpBenchmark_init_def)
qed

theorem counts_at_run_end_witness:
  "success_count (the refused_run) + failure_count (the refused_run) = 2 \<and>
   completed_requests (the refused_run) + tally excepted (tasks (the refused_run)) = 2 \<and>
   completed_requests (the refused_run) = tally responded (tasks (the refused_run)) \<and>
   progress_bar (the refused_run) = 2"
proof -
  have r: "run (HttpBenchmark_init ''http://h/generate'' 2 1 ''test.txt'' (Some (str ''hi''))) 0
       [Start 0 0 0 0, Tick 1, Resolve 0 (Raised (OtherException ''ConnectError'')),
        Start 1 0 0 0, Tick 2, Resolve 1 (Returned 200), Tick 1] = Some (the refused_run)"
    by (simp add: refused_run_def eval_defs)
  have g: "gathered (the refused_run)"
    by (simp add: refused_run_def eval_defs)
  from counts_at_run_end [OF r _ g] show ?thesis by simp
qed

section \<open>The average response time\<close>

text \<open>
  C2: the average response time is the sum of the durations of the calls that got status
  200, divided by the success count. The code adds the duration of every call that got a
  response to \<open>total_time\<close> (line 60, before the status is looked at) and divides by
  the success count: in \<open>mixed_run\<close> the one successful call took 1 second, the call
  that got status 500 took 3, and the average reported is 4.
\<close>

theorem average_time_counts_rejected_durations:
  "map_option tasks mixed_run = Some [Finished (Success 1), Finished (Failure_status 500 3)] \<and>
   map_option success_count mixed_run = Some 1 \<and>
   map_option total_time mixed_run = Some 4 \<and>
   map_option average_time mixed_run = Some (Inr 4) \<and>
   map_option average_time mixed_run \<noteq> Some (Inr (1 / 1))"
  by (simp add: mixed_run_def eval_defs average_time_def truediv_def)

text \<open>
  What the average of any run of a fresh object is: the durations of all the calls that got
  a response, over the number of those that got status 200.
\<close>

lemma average_time_of_run:
  assumes "run (HttpBenchmark_init u n c path content) t evs = Some s"
  shows "average_time s =
           Inr (if 0 < tally succeeded (tasks s)
                then tally elapsed (tasks s) / real_of_int (tally succeeded (tasks s)) else 0)"
  using counted_run [OF assms]
  by (simp add: counted_def average_time_def truediv_def HttpBenchmark_init_def)

section \<open>The order of the steps of a work item\<close>

text \<open>
  C3, as stated: every work item samples a prompt, builds the payload, then records the
  start timestamp, issues the POST and records the end timestamp, so that the elapsed
  duration measures the HTTP call only. It fails: in \<open>slow_sample_run\<close> the clock is
  read at 0, before the sampling, the POST is issued at 2 and answered at 5, and the
  elapsed duration recorded is 5, not the 3 seconds of the call.
\<close>

theorem timestamp_order_counterexample:
  "map_option (actions_of 0) slow_sample_run =
     Some [(0, Acquire), (0, ReadClock 0), (0, Sample (str ''hi'')), (1, Build (payload (str ''hi''))),
           (2, Post \<lparr>req_url = ''http://h/generate'', req_json = payload (str ''hi''),
                     req_timeout = httpx_Timeout 60\<rparr>),
           (5, ReadClock 5), (5, Progress), (5, Release)] \<and>
   map_option tasks slow_sample_run = Some [Finished (Success 5)] \<and>
   map_option total_time slow_sample_run = Some 5 \<and>
   map_option total_time slow_sample_run \<noteq> Some (5 - 2)"
  by (simp add: slow_sample_run_def eval_defs)

text \<open>
  C3, amended: every work item that received a response has performed, in this order:
  taking the permit, recording the start timestamp, sampling the prompt, building the
  payload, issuing the POST, recording the end timestamp; its elapsed duration is the time
  from the start timestamp to the POST (sampling and payload construction) plus the
  time of the HTTP call.
\<close>

theorem start_timestamp_precedes_sampling:
  assumes "run b t evs = Some s" and "i < length (tasks s)"
    and "tasks s ! i = Finished (Success d) \<or> tasks s ! i = Finished (Failure_status c d)"
  shows "\<exists>p\<in>set (data_pool b). \<exists>t0 tb tp t1.
           t0 \<le> tb \<and> tb \<le> tp \<and> tp \<le> t1 \<and> d = (tp - t0) + (t1 - tp) \<and>
           actions_of i s =
             [(t0, Acquire), (t0, ReadClock t0), (t0, Sample p), (tb, Build (payload p)),
              (tp, Post \<lparr>req_url = url b, req_json = payload p, req_timeout = httpx_Timeout 60\<rparr>),
              (t1, ReadClock t1), (t1, Progress), (t1, Release)]"
proof -
  from traced_run [OF assms(1)] assms(2)
  have sh: "shape b (clock s) (tasks s ! i) (actions_of i s)"
    by (simp add: traced_def actions_of_def)
  from assms(3) sh obtain t0 t1 where d: "d = t1 - t0"
    and c: "called b (clock s) t0 t1 [(t1, ReadClock t1), (t1, Progress), (t1, Release)]
              (actions_of i s)"
    by auto
  from c obtain p tb tp where "p \<in> set (data_pool b)" "t0 \<le> tb" "tb \<le> tp" "tp \<le> t1"
    "actions_of i s = entered (url b) t0 p tb tp @ [(t1, ReadClock t1), (t1, Progress), (t1, Release)]"
    by (auto simp: called_def)
  with d show ?thesis
    by (intro bexI [of _ p] exI [of _ t0] exI [of _ tb] exI [of _ tp] exI [of _ t1])
      (simp_all add: entered_def)
qed

theorem start_timestamp_precedes_sampling_witness:
  "\<exists>p\<in>set [str ''hi'']. \<exists>t0 tb tp t1.
           t0 \<le> tb \<and> tb \<le> tp \<and> tp \<le> t1 \<and> (5::real) = (tp - t0) + (t1 - tp) \<and>
           actions_of 0 (the slow_sample_run) =
             [(t0, Acquire), (t0, ReadClock t0), (t0, Sample p), (tb, Build (payload p)),
              (tp, Post \<lparr>req_url = ''http://h/generate'', req_json = payload p, req_timeout = httpx_Timeout 60\<rparr>),
              (t1, ReadClock t1), (t1, Progress), (t1, Release)]"
proof -
  let ?b = "HttpBenchmark_init ''http://h/generate'' 1 1 ''test.txt'' (Some (str ''hi''))"
  have r: "run ?b 0 [Start 0 0 1 1, Tick 3, Resolve 0 (Returned 200)] = Some (the slow_sample_run)"
    by (simp add: slow_sample_run_def eval_defs)
  have i: "0 < length (tasks (the slow_sample_run))"
    by (simp add: slow_sample_run_def eval_defs)
  have f: "tasks (the slow_sample_run) ! 0 = Finished (Success 5) \<or>
           tasks (the slow_sample_run) ! 0 = Finished (Failure_status 200 5)"
    by (simp add: slow_sample_run_def eval_defs)
  have pool: "data_pool ?b = [str ''hi'']" "url ?b = ''http://h/generate''"
    by (simp_all add: eval_defs)
  from start_timestamp_precedes_sampling [OF r i f] show ?thesis
    unfolding pool .
qed

text \<open>
  The same order holds for a work item whose POST raised: the start timestamp comes before
  the sampling, and the handler runs where the end timestamp would have been read.
\<close>

lemma order_of_raising_items:
  assumes "run b t evs = Some s" and "i < length (tasks s)"
    and "tasks s ! i = Finished (Failure_exception e)" and "data_pool b \<noteq> []"
  shows "\<exists>p\<in>set (data_pool b). \<exists>t0 tb tp t1.
           t0 \<le> tb \<and> tb \<le> tp \<and> tp \<le> t1 \<and>
           actions_of i s =
             [(t0, Acquire), (t0, ReadClock t0), (t0, Sample p), (tb, Build (payload p)),
              (tp, Post \<lparr>req_url = url b, req_json = payload p, req_timeout = httpx_Timeout 60\<rparr>),
              (t1, Traceback e), (t1, Progress), (t1, Release)]"
proof -
  from traced_run [OF assms(1)] assms(2)
  have "shape b (clock s) (tasks s ! i) (actions_of i s)"
    by (simp add: traced_def actions_of_def)
  with assms(3,4) obtain t0 t1 where
    "called b (clock s) t0 t1 [(t1, Traceback e), (t1, Progress), (t1, Release)] (actions_of i s)"
    by auto
  then obtain p tb tp where "p \<in> set (data_pool b)" "t0 \<le> tb" "tb \<le> tp" "tp \<le> t1"
    "actions_of i s = entered (url b) t0 p tb tp @ [(t1, Traceback e), (t1, Progress), (t1, Release)]"
    by (auto simp: called_def)
  then show ?thesis
    by (intro bexI [of _ p] exI [of _ t0] exI [of _ tb] exI [of _ tp] exI [of _ t1])
      (simp_all add: entered_def)
qed

section \<open>Sampling\<close>

text \<open>
  C4: \<open>get_random_prompt\<close> raises its empty-pool error exactly when the pool has no
  element, on every call; for a non-empty pool every call returns a member of the pool,
  hence never the empty string when the pool holds none, as is the case for every pool
  that \<open>load_dataset\<close> returns.
\<close>

theorem get_random_prompt_member:
  "(isl (get_random_prompt pool r) \<longleftrightarrow> pool = []) \<and>
   (pool = [] \<longrightarrow> get_random_prompt pool r = Inl ValueError) \<and>
   (pool \<noteq> [] \<longrightarrow> (\<exists>p\<in>set pool. get_random_prompt pool r = Inr p)) \<and>
   ([] \<notin> set pool \<longrightarrow> get_random_prompt pool r \<noteq> Inr []) \<and>
   get_random_prompt (load_dataset content) r \<noteq> Inr []"
proof -
  have mem: "pool \<noteq> [] \<Longrightarrow> pool ! (r mod length pool) \<in> set pool" for pool :: "ustr list"
    by simp
  have a: "get_random_prompt pool r \<noteq> Inr []" if n: "[] \<notin> set pool" for pool
  proof (cases "pool = []")
    case True
    then show ?thesis by (simp add: get_random_prompt_def)
  next
    case False
    from mem [OF False] n have "pool ! (r mod length pool) \<noteq> []" by metis
    with False show ?thesis by (simp add: get_random_prompt_def)
  qed
  from a [OF load_dataset_no_blank] a mem show ?thesis
    by (auto simp: get_random_prompt_def)
qed

theorem get_random_prompt_member_witness:
  "[str ''a'', str ''b''] \<noteq> [] \<and> [] \<notin> set [str ''a'', str ''b''] \<and>
   \<not> isl (get_random_prompt [str ''a'', str ''b''] 3) \<and>
   (\<exists>p\<in>set [str ''a'', str ''b'']. get_random_prompt [str ''a'', str ''b''] 3 = Inr p) \<and>
   get_random_prompt [str ''a'', str ''b''] 3 \<noteq> Inr [] \<and>
   isl (get_random_prompt [] 3)"
  using get_random_prompt_member [of "[str ''a'', str ''b'']" 3] get_random_prompt_member [of "[]" 3]
  by (simp add: str_def)

section \<open>Loading\<close>

text \<open>
  C5: for every readable dataset file, \<open>load_dataset\<close> returns the lines of the file in
  order, each stripped of its surrounding whitespace, without the lines that are empty after
  stripping. The lines are the pieces of the text, after the translation of \<open>\r\n\<close> and
  \<open>\r\<close> to \<open>\n\<close>, that end at each \<open>\n\<close>; stripping removes the longest prefix and
  suffix of whitespace code points, which are the ones listed. The file with the lines
  \<open>hello\<close>, an empty line, \<open>world\<close> between spaces and \<open>foo\<close> loads to the three
  prompts \<open>hello\<close>, \<open>world\<close>, \<open>foo\<close>, with any of the three line ends; ideographic
  and em spaces are stripped, a zero-width space is not.
\<close>

theorem load_dataset_strips_and_drops:
  "load_dataset (Some t) = spec_load (file_lines t) \<and>
   (p \<in> set (load_dataset (Some t)) \<longleftrightarrow> p \<noteq> [] \<and> (\<exists>l\<in>set (file_lines t). p = strip l)) \<and>
   concat (file_lines t) = universal_newlines t \<and>
   (\<forall>l\<in>set (file_lines t). l \<noteq> [] \<and> LF \<notin> set (butlast l)) \<and>
   (\<forall>l\<in>set (butlast (file_lines t)). last l = LF) \<and>
   CR \<notin> set (universal_newlines t) \<and>
   (\<not> (a \<noteq> [] \<and> last a = CR \<and> b \<noteq> [] \<and> hd b = LF) \<longrightarrow>
      universal_newlines (a @ b) = universal_newlines a @ universal_newlines b) \<and>
   universal_newlines [CR, LF] = [LF] \<and> universal_newlines [CR] = [LF] \<and>
   (c \<noteq> CR \<longrightarrow> universal_newlines [c] = [c]) \<and>
   (\<exists>pre post. s = pre @ strip s @ post \<and> (\<forall>x\<in>set pre. isspace x) \<and> (\<forall>x\<in>set post. isspace x)) \<and>
   (strip s \<noteq> [] \<longrightarrow> \<not> isspace (hd (strip s)) \<and> \<not> isspace (last (strip s))) \<and>
   (isspace w \<longleftrightarrow>
      w \<in> {0x09..0x0D} \<union> {0x1C..0x20} \<union> {0x85, 0xA0, 0x1680} \<union> {0x2000..0x200A} \<union>
          {0x2028, 0x2029, 0x202F, 0x205F, 0x3000}) \<and>
   load_dataset (Some (str ''hello'' @ [LF] @ [LF] @ str ''  world  '' @ [LF] @ str ''foo'')) =
     [str ''hello'', str ''world'', str ''foo''] \<and>
   load_dataset (Some (str ''hello'' @ [CR, LF] @ [CR] @ str ''  world  '' @ [CR, LF] @
                       str ''foo'' @ [LF])) =
     [str ''hello'', str ''world'', str ''foo''] \<and>
   load_dataset (Some [0x3000, 0x4F60, 0x597D, 0x2003, LF, 0x3000, 0x85, LF, 0x4E16, 0x200B]) =
     [[0x4F60, 0x597D], [0x4E16, 0x200B]] \<and>
   spec_load [str ''hello'', [], str ''  world  '', str ''foo''] =
     [str ''hello'', str ''world'', str ''foo'']"
proof -
  have "load_dataset (Some t) = spec_load (file_lines t)"
    by (simp add: load_dataset_def spec_load_def strip_filter_commute)
  moreover have "concat (file_lines t) = universal_newlines t"
    by (simp add: file_lines_def split_lines_concat)
  moreover have "\<forall>l\<in>set (file_lines t). l \<noteq> [] \<and> LF \<notin> set (butlast l)"
    using split_lines_line by (simp add: file_lines_def)
  moreover have "\<forall>l\<in>set (butlast (file_lines t)). last l = LF"
    using split_lines_terminated by (simp add: file_lines_def)
  moreover have "universal_newlines [CR, LF] = [LF]" "universal_newlines [CR] = [LF]"
    "c \<noteq> CR \<longrightarrow> universal_newlines [c] = [c]"
    by simp_all
  moreover have
    "load_dataset (Some (str ''hello'' @ [LF] @ [LF] @ str ''  world  '' @ [LF] @ str ''foo'')) =
       [str ''hello'', str ''world'', str ''foo'']"
    by (simp add: load_dataset_def file_lines_def strip_def isspace_def LF_def CR_def str_def)
  moreover have
    "load_dataset (Some (str ''hello'' @ [CR, LF] @ [CR] @ str ''  world  '' @ [CR, LF] @
                         str ''foo'' @ [LF])) =
       [str ''hello'', str ''world'', str ''foo'']"
    by (simp add: load_dataset_def file_lines_def strip_def isspace_def LF_def CR_def str_def)
  moreover have
    "load_dataset (Some [0x3000, 0x4F60, 0x597D, 0x2003, LF, 0x3000, 0x85, LF, 0x4E16, 0x200B]) =
       [[0x4F60, 0x597D], [0x4E16, 0x200B]]"
    by (simp add: load_dataset_def file_lines_def strip_def isspace_def LF_def CR_def)
  moreover have "spec_load [str ''hello'', [], str ''  world  '', str ''foo''] =
      [str ''hello'', str ''world'', str ''foo'']"
    by (simp add: spec_load_def strip_def isspace_def str_def)
  ultimately show ?thesis
    using load_dataset_members [of p t] universal_newlines_no_CR [of t]
      universal_newlines_append [of a b] strip_decompose [of s] strip_ends [of s] isspace_iff [of w]
    by blast
qed

theorem load_dataset_strips_and_drops_witness:
  "load_dataset (Some (str ''a b'' @ [CR, LF] @ str '' c'')) =
     spec_load (file_lines (str ''a b'' @ [CR, LF] @ str '' c'')) \<and>
   concat (file_lines (str ''a b'' @ [CR, LF] @ str '' c'')) =
     universal_newlines (str ''a b'' @ [CR, LF] @ str '' c'') \<and>
   CR \<notin> set (universal_newlines (str ''a b'' @ [CR, LF] @ str '' c'')) \<and>
   universal_newlines ([CR] @ [CR, LF]) = universal_newlines [CR] @ universal_newlines [CR, LF] \<and>
   universal_newlines [LF] = [LF] \<and>
   \<not> isspace (hd (strip (str '' c'' @ [0x3000]))) \<and>
   \<not> isspace (last (strip (str '' c'' @ [0x3000]))) \<and>
   isspace 0x3000"
proof -
  have ne: "strip (str '' c'' @ [0x3000]) \<noteq> []"
    by (simp add: strip_def isspace_def str_def)
  have sp: "\<not> ([CR] \<noteq> [] \<and> last [CR] = CR \<and> [CR, LF] \<noteq> [] \<and> hd [CR, LF] = LF)"
    by (simp add: CR_def LF_def)
  have nl: "LF \<noteq> CR"
    by (simp add: CR_def LF_def)
  have m: "(0x3000 :: nat) \<in> {0x09..0x0D} \<union> {0x1C..0x20} \<union> {0x85, 0xA0, 0x1680} \<union>
             {0x2000..0x200A} \<union> {0x2028, 0x2029, 0x202F, 0x205F, 0x3000}"
    by simp
  from load_dataset_strips_and_drops [where t = "str ''a b'' @ [CR, LF] @ str '' c''"
      and s = "str '' c'' @ [0x3000]" and a = "[CR]" and b = "[CR, LF]" and c = LF
      and w = "0x3000"] ne sp nl m
  show ?thesis by blast
qed

section \<open>Queries per second\<close>

text \<open>
  C6, as stated: the QPS is the count of completed (success plus failure) requests divided
  by the wall-clock duration. It fails: the report of \<open>refused_run\<close> has one success and
  one failure in 4 seconds and a QPS of 1/4, not 2/4.
\<close>

theorem qps_numerator_counterexample:
  "run_benchmark refused_bench 0
     [Start 0 0 0 0, Tick 1, Resolve 0 (Raised (OtherException ''ConnectError'')),
      Start 1 0 0 0, Tick 2, Resolve 1 (Returned 200), Tick 1] =
     Some (Inr \<lparr>rep_total_requests = 2, rep_concurrency = 1, rep_success_count = 1,
                 rep_failure_count = 1, rep_total_duration = 4, rep_average_time = 2,
                 rep_qps = 1 / 4\<rparr>) \<and>
   (1 / 4 :: real) \<noteq> real_of_int (1 + 1) / 4"
  by (simp add: run_benchmark_def qps_def average_time_def truediv_def eval_defs)

text \<open>
  C6, amended: a run that returns gives a report, without a division error; its QPS is the
  counter \<open>completed_requests\<close> divided by the wall-clock duration when that duration is
  positive, and 0 when it is 0; the duration is never negative; the numerator is neither
  the configured total nor the success count plus the failure count: it is the number of
  work items that received a response, that is the two counts less the work items that
  ended in an exception.
\<close>

theorem qps_completed_over_duration:
  assumes "run (HttpBenchmark_init u n c path content) t0 evs = Some s" and "gathered s"
  shows "\<exists>rep. run_benchmark (HttpBenchmark_init u n c path content) t0 evs = Some (Inr rep) \<and>
           rep_total_duration rep = clock s - t0 \<and> 0 \<le> rep_total_duration rep \<and>
           (0 < rep_total_duration rep \<longrightarrow>
              rep_qps rep = real_of_int (completed_requests s) / rep_total_duration rep) \<and>
           (rep_total_duration rep = 0 \<longrightarrow> rep_qps rep = 0) \<and>
           completed_requests s = tally responded (tasks s) \<and>
           completed_requests s =
             rep_success_count rep + rep_failure_count rep - tally excepted (tasks s)"
proof -
  let ?b = "HttpBenchmark_init u n c path content"
  from counted_run [OF assms(1)] have c: "counted ?b s" .
  from assms(2) have "list_all returned (tasks s)" by (simp add: gathered_def)
  from gathered_tallies [OF this] c
  have cnt: "completed_requests s = tally responded (tasks s)"
    "completed_requests s = success_count s + failure_count s - tally excepted (tasks s)"
    by (simp_all add: counted_def HttpBenchmark_init_def)
  from clock_mono_run [OF assms(1)] have d: "0 \<le> clock s - t0" by simp
  show ?thesis
  proof (cases "0 < clock s - t0")
    case True
    with assms cnt show ?thesis
      by (simp add: run_benchmark_def qps_def average_time_def truediv_def Let_def)
  next
    case False
    with d have "clock s - t0 = 0" by simp
    with assms cnt show ?thesis
      by (simp add: run_benchmark_def qps_def average_time_def truediv_def Let_def)
  qed
qed

theorem qps_completed_over_duration_witness:
  "(\<exists>rep. run_benchmark (HttpBenchmark_init ''http://h/generate'' 2 1 ''test.txt'' (Some (str ''hi''))) 0
       [Start 0 0 0 0, Tick 1, Resolve 0 (Raised (OtherException ''ConnectError'')),
        Start 1 0 0 0, Tick 2, Resolve 1 (Returned 200), Tick 1] = Some (Inr rep) \<and>
      rep_total_duration rep = 4 \<and> rep_qps rep = 1 / 4 \<and>
      rep_success_count rep + rep_failure_count rep - 1 = 1) \<and>
   (\<exists>rep. run_benchmark (HttpBenchmark_init ''http://h/generate'' 1 1 ''missing.txt'' None) 0
       [Start 0 0 0 0] = Some (Inr rep) \<and>
      rep_total_duration rep = 0 \<and> rep_qps rep = 0)"
proof -
  let ?b = "HttpBenchmark_init ''http://h/generate'' 2 1 ''test.txt'' (Some (str ''hi''))"
  let ?evs = "[Start 0 0 0 0, Tick 1, Resolve 0 (Raised (OtherException ''ConnectError'')),
        Start 1 0 0 0, Tick 2, Resolve 1 (Returned 200), Tick 1]"
  let ?c = "HttpBenchmark_init ''http://h/generate'' 1 1 ''missing.txt'' None"
  have r: "run ?b 0 ?evs = Some (the refused_run)"
    by (simp add: refused_run_def eval_defs)
  have g: "gathered (the refused_run)"
    by (simp add: refused_run_def eval_defs)
  have v: "clock (the refused_run) = 4" "completed_requests (the refused_run) = 1"
    "tally excepted (tasks (the refused_run)) = 1"
    by (simp_all add: refused_run_def eval_defs tally_def)
  have r0: "run ?c 0 [Start 0 0 0 0] = Some (the empty_pool_run)"
    by (simp add: empty_pool_run_def eval_defs)
  have g0: "gathered (the empty_pool_run)"
    by (simp add: empty_pool_run_def eval_defs)
  have v0: "clock (the empty_pool_run) = 0"
    by (simp add: empty_pool_run_def eval_defs)
  from qps_completed_over_duration [OF r g] qps_completed_over_duration [OF r0 g0]
  show ?thesis by (auto simp: v v0)
qed

section \<open>Exceptions stay inside their work item\<close>

text \<open>
  C7: an exception raised inside a work item during sampling, payload construction or the
  HTTP call (an instance of \<open>Exception\<close>: a connection error, a timeout, the empty-pool
  error) is caught in that work item: its task returns, classified as a failure, the
  failure count goes up by one, every step that another work item or the clock could take
  can still be taken, and the run goes on from the resulting state; as long as the run
  has met such exceptions only, no exception has left a work item, and once all work
  items are finished the run returns and gives its report.
\<close>

theorem exceptions_are_contained:
  assumes "run b t evs = Some s" and "step ev s = Some s'"
    and "raised ev s = Some (i, e)" and "is_Exception e"
  shows "i < length (tasks s) \<and>
         tasks s' = (tasks s)[i := Finished (Failure_exception e)] \<and>
         returned (tasks s' ! i) \<and>
         failure_count s' = failure_count s + 1 \<and>
         (\<forall>ev'. item_of ev' \<noteq> Some i \<longrightarrow> step ev' s \<noteq> None \<longrightarrow> step ev' s' \<noteq> None) \<and>
         run b t (evs @ [ev]) = Some s' \<and>
         (list_all catchable evs \<longrightarrow> tally escaped (tasks s') = 0) \<and>
         (list_all catchable evs \<longrightarrow> list_all (\<lambda>t. finished t = 1) (tasks s') \<longrightarrow>
            gathered s' \<and> (\<exists>rep. run_benchmark b t (evs @ [ev]) = Some (Inr rep)))"
proof -
  from raised_effect [OF assms(2,3)] assms(4)
  have eff: "i < length (tasks s)" "tasks s' = (tasks s)[i := Finished (Failure_exception e)]"
    "failure_count s' = failure_count s + 1" "semaphore s \<le> semaphore s'"
    by simp_all
  from eff(1,2) have ret: "returned (tasks s' ! i)" by simp
  have en: "step ev' s' \<noteq> None" if "item_of ev' \<noteq> Some i" "step ev' s \<noteq> None" for ev'
    using enabled_after [OF that(2,1) eff(4,2)] .
  note r = run_snoc [OF assms(1,2)]
  from assms(3,4) have c: "catchable ev"
    by (cases ev rule: catchable.cases) simp_all
  have all: "list_all catchable (evs @ [ev])" if "list_all catchable evs"
    using that c by simp
  have esc: "tally escaped (tasks s') = 0" if "list_all catchable evs"
    using escaped_run [OF r all [OF that]] .
  have fin: "gathered s' \<and> (\<exists>rep. run_benchmark b t (evs @ [ev]) = Some (Inr rep))"
    if "list_all catchable evs" "list_all (\<lambda>t. finished t = 1) (tasks s')"
    using run_returns [OF r all [OF that(1)] that(2)] .
  from eff(1,2,3) ret en r esc fin show ?thesis by blast
qed

theorem exceptions_are_contained_witness:
  "tasks (the (step (Resolve 0 (Raised (OtherException ''ConnectError''))) (the refused_before))) =
     (tasks (the refused_before))[0 := Finished (Failure_exception (OtherException ''ConnectError''))] \<and>
   failure_count (the (step (Resolve 0 (Raised (OtherException ''ConnectError''))) (the refused_before))) =
     failure_count (the refused_before) + 1 \<and>
   run refused_bench 0 ([Start 0 0 0 0, Tick 1] @ [Resolve 0 (Raised (OtherException ''ConnectError''))]) =
     Some (the (step (Resolve 0 (Raised (OtherException ''ConnectError''))) (the refused_before))) \<and>
   tally escaped
     (tasks (the (step (Resolve 0 (Raised (OtherException ''ConnectError''))) (the refused_before)))) = 0 \<and>
   failure_count (the empty_pool_run) = failure_count (the (run empty_bench 0 [])) + 1 \<and>
   gathered (the empty_pool_run) \<and>
   (\<exists>rep. run_benchmark empty_bench 0 ([] @ [Start 0 0 0 0]) = Some (Inr rep))"
proof -
  let ?ev = "Resolve 0 (Raised (OtherException ''ConnectError''))"
  have r: "run refused_bench 0 [Start 0 0 0 0, Tick 1] = Some (the refused_before)"
    by (simp add: refused_before_def eval_defs)
  have st: "step ?ev (the refused_before) = Some (the (step ?ev (the refused_before)))"
    by (simp add: refused_before_def eval_defs)
  have ra: "raised ?ev (the refused_before) = Some (0, OtherException ''ConnectError'')"
    by simp
  have ex: "is_Exception (OtherException ''ConnectError'')"
    by simp
  have c: "list_all catchable [Start 0 0 0 0, Tick 1]"
    by simp
  have r0: "run empty_bench 0 [] = Some (the (run empty_bench 0 []))"
    by (simp add: eval_defs)
  have st0: "step (Start 0 0 0 0) (the (run empty_bench 0 [])) = Some (the empty_pool_run)"
    by (simp add: empty_pool_run_def eval_defs)
  have ra0: "raised (Start 0 0 0 0) (the (run empty_bench 0 [])) = Some (0, ValueError)"
    by (simp add: eval_defs)
  have ex0: "is_Exception ValueError"
    by simp
  have c0: "list_all catchable []"
    by simp
  have f0: "list_all (\<lambda>t. finished t = 1) (tasks (the empty_pool_run))"
    by (simp add: empty_pool_run_def eval_defs)
  from exceptions_are_contained [OF r st ra ex] c
    exceptions_are_contained [OF r0 st0 ra0 ex0] c0 f0
  show ?thesis by blast
qed

section \<open>The concurrency bound\<close>



section \<open>The request sent\<close>

text \<open>
  C9, as stated: every work item issues exactly one POST. It fails: with an empty pool
  the work item of \<open>empty_pool_run\<close> raises in \<open>get_random_prompt\<close> and ends without
  a POST.
\<close>

theorem one_post_counterexample:
  "map_option tasks empty_pool_run = Some [Finished (Failure_exception ValueError)] \<and>
   map_option (actions_of 0) empty_pool_run =
     Some [(0, Acquire), (0, ReadClock 0), (0, Traceback ValueError), (0, Progress),
           (0, Release)] \<and>
   map_option (posts_of 0) empty_pool_run = Some [] \<and>
   map_option (length \<circ> posts_of 0) empty_pool_run \<noteq> Some 1"
  by (simp add: empty_pool_run_def eval_defs)

text \<open>
  C9, amended: with a non-empty pool, every work item that has taken its permit has sampled
  exactly one prompt and then issued exactly one POST, to the configured URL, with the JSON
  body of that prompt, \<open>stream\<close> false, \<open>temperature\<close> 0.6 and \<open>max_tokens\<close> 9999,
  through the client built with \<open>httpx.Timeout(60.0)\<close>: a limit of 60 seconds on each of
  the connect, read, write and pool phases, and none on the request as a whole; with an
  empty pool it has sampled nothing and issued no POST.
\<close>

theorem one_post_per_sampled_item:
  assumes "run b t evs = Some s" and "i < length (tasks s)" and "tasks s ! i \<noteq> Pending"
  shows "(data_pool b \<noteq> [] \<longrightarrow>
            (\<exists>p\<in>set (data_pool b). \<exists>t0 tb tp. t0 \<le> tb \<and> tb \<le> tp \<and>
               take 5 (actions_of i s) =
                 [(t0, Acquire), (t0, ReadClock t0), (t0, Sample p), (tb, Build (payload p)),
                  (tp, Post \<lparr>req_url = url b, req_json = payload p,
                               req_timeout = httpx_Timeout 60\<rparr>)] \<and>
               samples_of i s = [(t0, Sample p)] \<and>
               posts_of i s =
                 [(tp, Post \<lparr>req_url = url b,
                              req_json = [(''prompt'', JString p), (''stream'', JBool False),
                                          (''temperature'', JFloat (6 / 10)),
                                          (''max_tokens'', JInt 9999)],
                              req_timeout = \<lparr>t_connect = Some 60, t_read = Some 60,
                                             t_write = Some 60, t_pool = Some 60\<rparr>\<rparr>)])) \<and>
         (data_pool b = [] \<longrightarrow> samples_of i s = [] \<and> posts_of i s = [])"
proof -
  from traced_run [OF assms(1)] assms(2)
  have "shape b (clock s) (tasks s ! i) (item_trace i (trace s))"
    by (simp add: traced_def)
  from shape_sample_post [OF this assms(3)] show ?thesis
    by (simp add: posts_of_def samples_of_def actions_of_def entered_def payload_def
          httpx_Timeout_def)
qed

theorem one_post_per_sampled_item_witness:
  "samples_of 0 (the second_prompt_run) = [(0, Sample (str ''b''))] \<and>
   (\<exists>tp. posts_of 0 (the second_prompt_run) =
       [(tp, Post \<lparr>req_url = ''http://h/generate'',
                    req_json = [(''prompt'', JString (str ''b'')), (''stream'', JBool False),
                                (''temperature'', JFloat (6 / 10)),
                                (''max_tokens'', JInt 9999)],
                    req_timeout = \<lparr>t_connect = Some 60, t_read = Some 60,
                                   t_write = Some 60, t_pool = Some 60\<rparr>\<rparr>)])"
proof -
  let ?b = "HttpBenchmark_init ''http://h/generate'' 1 1 ''test.txt''
              (Some (str ''a'' @ [LF] @ str ''b''))"
  have r: "run ?b 0 [Start 0 1 0 0, Tick 1, Resolve 0 (Returned 200)] = Some (the second_prompt_run)"
    by (simp add: second_prompt_run_def eval_defs)
  have i: "0 < length (tasks (the second_prompt_run))"
    by (simp add: second_prompt_run_def eval_defs)
  have f: "tasks (the second_prompt_run) ! 0 \<noteq> Pending"
    by (simp add: second_prompt_run_def eval_defs)
  have pool: "data_pool ?b = [str ''a'', str ''b'']" "url ?b = ''http://h/generate''"
    by (simp_all add: eval_defs)
  have sm: "samples_of 0 (the second_prompt_run) = [(0, Sample (str ''b''))]"
    by (simp add: second_prompt_run_def samples_of_def eval_defs)
  from one_post_per_sampled_item [OF r i f] have
    "\<exists>p\<in>set [str ''a'', str ''b'']. \<exists>t0 tb tp.
       samples_of 0 (the second_prompt_run) = [(t0, Sample p)] \<and>
       posts_of 0 (the second_prompt_run) =
         [(tp, Post \<lparr>req_url = ''http://h/generate'',
                      req_json = [(''prompt'', JString p), (''stream'', JBool False),
                                  (''temperature'', JFloat (6 / 10)),
                                  (''max_tokens'', JInt 9999)],
                      req_timeout = \<lparr>t_connect = Some 60, t_read = Some 60,
                                     t_write = Some 60, t_pool = Some 60\<rparr>\<rparr>)]"
    unfolding pool by (simp add: str_def) blast
  with sm show ?thesis by auto
qed

section \<open>The frame of the exception path\<close>

text \<open>
  C10: a work item that ends in the exception handler changes one statistics field, the
  failure count, which goes up by one; the completed count, the success count and the
  total time stay as they were, and the progress bar advances by one.
\<close>

theorem exception_path_frame:
  assumes "step ev s = Some s'" and "raised ev s = Some (i, e)" and "is_Exception e"
  shows "failure_count s' = failure_count s + 1 \<and>
         completed_requests s' = completed_requests s \<and>
         success_count s' = success_count s \<and>
         total_time s' = total_time s \<and>
         progress_bar s' = progress_bar s + 1"
  using raised_effect [OF assms(1,2)] assms(3) by simp

theorem exception_path_frame_witness:
  "failure_count (the empty_pool_run) = failure_count (the (run empty_bench 0 [])) + 1 \<and>
   completed_requests (the empty_pool_run) = completed_requests (the (run empty_bench 0 [])) \<and>
   success_count (the empty_pool_run) = success_count (the (run empty_bench 0 [])) \<and>
   total_time (the empty_pool_run) = total_time (the (run empty_bench 0 [])) \<and>
   progress_bar (the empty_pool_run) = progress_bar (the (run empty_bench 0 [])) + 1"
proof -
  have st: "step (Start 0 0 0 0) (the (run empty_bench 0 [])) = Some (the empty_pool_run)"
    by (simp add: empty_pool_run_def eval_defs)
  have ra: "raised (Start 0 0 0 0) (the (run empty_bench 0 [])) = Some (0, ValueError)"
    by (simp add: eval_defs)
  have ex: "is_Exception ValueError"
    by simp
  from exception_path_frame [OF st ra ex] show ?thesis .
qed

end
